theory Spec2Isabelle
  imports Main "HOL-Library.Word"
begin

section \<open>The Anvil region reader of \<^verbatim>\<open>anvil/region.py\<close>\<close>

text \<open>
  The class \<^verbatim>\<open>Region\<close> holds the name of a region file, the bytes read from it and a
  list of chunks. Its methods index into the bytes; Python's \<^verbatim>\<open>bytes\<close> indexing raises
  \<^verbatim>\<open>IndexError\<close> out of range, while slicing clamps its bounds and never raises.
  Python integers are unbounded, so offsets and coordinates are \<^typ>\<open>int\<close>; a byte is an
  8-bit word.
\<close>

subsection \<open>Bytes, indexing and slicing\<close>

type_synonym byte = "8 word"

text \<open>
  The exceptions that can leave the methods of \<^verbatim>\<open>Region\<close>: the \<^verbatim>\<open>IndexError\<close> of a
  byte read out of range, the \<^verbatim>\<open>GZipChunkData\<close> of \<^verbatim>\<open>anvil.errors\<close>, the error of
  \<^verbatim>\<open>zlib.decompress\<close>, the error of the NBT parser and the error of the constructor
  \<^verbatim>\<open>anvil.Chunk\<close>.
\<close>

datatype error = IndexError | GZipChunkData | ZlibError | MalformedNBT | ChunkError

text \<open>\<^verbatim>\<open>data[i]\<close>: a negative index counts from the end; out of range raises.\<close>

definition getitem :: "byte list \<Rightarrow> int \<Rightarrow> error + byte" where
  "getitem xs i =
     (let n = int (length xs); k = (if i < 0 then i + n else i)
      in if 0 \<le> k \<and> k < n then Inr (xs ! nat k) else Inl IndexError)"

text \<open>
  \<^verbatim>\<open>data[i:j]\<close>: a negative bound counts from the end, both bounds are clamped to
  the length, and an empty range gives the empty byte string.
\<close>

definition getslice :: "byte list \<Rightarrow> int \<Rightarrow> int \<Rightarrow> byte list" where
  "getslice xs i j =
     (let n = int (length xs);
          lo = (if i < 0 then max (i + n) 0 else min i n);
          hi = (if j < 0 then max (j + n) 0 else min j n)
      in take (nat (hi - lo)) (drop (nat lo) xs))"

text \<open>\<^verbatim>\<open>int.from_bytes(bs, byteorder='big')\<close>; the empty byte string gives 0.\<close>

definition from_bytes_big :: "byte list \<Rightarrow> int" where
  "from_bytes_big bs = foldl (\<lambda>acc b. acc * 256 + uint b) 0 bs"

subsection \<open>The region and its collaborators\<close>

text \<open>
  \<^verbatim>\<open>__slots__ = ('name', 'data', 'chunks')\<close>. The type of a chunk is that of
  \<^verbatim>\<open>anvil.Chunk\<close>, which this module only constructs.
\<close>

record 'c region =
  name :: string
  data :: "byte list"
  chunks :: "'c list"

text \<open>
  \<^verbatim>\<open>zlib.decompress\<close>, \<^verbatim>\<open>nbt.NBTFile\<close> and \<^verbatim>\<open>anvil.Chunk\<close> are imported, not defined
  here: they are parameters of the model. Each returns \<open>None\<close> where the Python raises.
  \<^verbatim>\<open>anvil.Chunk\<close> receives whatever \<^verbatim>\<open>chunk_data\<close> returns, which is \<^verbatim>\<open>None\<close> for a
  chunk that has not been generated.
\<close>

record ('n, 'c) collaborators =
  zlib_decompress :: "byte list \<Rightarrow> byte list option"
  NBTFile :: "byte list \<Rightarrow> 'n option"
  Chunk :: "'n option \<Rightarrow> 'c option"

text \<open>\<^verbatim>\<open>__init__\<close>, with the contents of the file as an argument.\<close>

definition Region :: "string \<Rightarrow> byte list \<Rightarrow> 'c region" where
  "Region nm contents = \<lparr>name = nm, data = contents, chunks = []\<rparr>"

subsection \<open>The header\<close>

text \<open>\<^verbatim>\<open>return 4 * (chunk_x % 32 + chunk_z % 32 * 32)\<close>; Python's \<^verbatim>\<open>%\<close> is floored.\<close>

definition header_offset :: "int \<Rightarrow> int \<Rightarrow> int" where
  "header_offset chunk_x chunk_z = 4 * (chunk_x mod 32 + chunk_z mod 32 * 32)"

definition chunk_location :: "'c region \<Rightarrow> int \<Rightarrow> int \<Rightarrow> error + (int \<times> int)" where
  "chunk_location self chunk_x chunk_z =
     (let b_off = header_offset chunk_x chunk_z;
          off = from_bytes_big (getslice (data self) b_off (b_off + 3))
      in case getitem (data self) (b_off + 3) of
           Inl e \<Rightarrow> Inl e
         | Inr sectors \<Rightarrow> Inr (off, uint sectors))"

subsection \<open>The payload of a chunk\<close>

text \<open>
  The last line of \<^verbatim>\<open>chunk_data\<close>,
  \<^verbatim>\<open>nbt.NBTFile(buffer=BytesIO(zlib.decompress(compressed_data)))\<close>.
\<close>

definition inflate_parse :: "('n, 'c) collaborators \<Rightarrow> byte list \<Rightarrow> error + 'n option" where
  "inflate_parse ext bs =
     (case zlib_decompress ext bs of
        None \<Rightarrow> Inl ZlibError
      | Some plain \<Rightarrow>
          (case NBTFile ext plain of
             None \<Rightarrow> Inl MalformedNBT
           | Some tree \<Rightarrow> Inr (Some tree)))"

text \<open>
  \<^verbatim>\<open>chunk_data\<close> up to the assignment of \<^verbatim>\<open>compressed_data\<close> (all but its last
  line). It raises, or returns early with \<^verbatim>\<open>None\<close> for a chunk not generated yet, or
  reaches the last line with the bytes it is about to hand to \<^verbatim>\<open>zlib.decompress\<close>.
\<close>

definition compressed_data :: "'c region \<Rightarrow> int \<Rightarrow> int \<Rightarrow> error + byte list option" where
  "compressed_data self chunk_x chunk_z =
     (case chunk_location self chunk_x chunk_z of
        Inl e \<Rightarrow> Inl e
      | Inr loc \<Rightarrow>
          if loc = (0, 0) then Inr None
          else
            (let off = fst loc * 4096;
                 length = from_bytes_big (getslice (data self) off (off + 4))
             in case getitem (data self) (off + 4) of
                  Inl e \<Rightarrow> Inl e
                | Inr compression \<Rightarrow>
                    if compression = 1 then Inl GZipChunkData
                    else Inr (Some (getslice (data self) (off + 5) (off + 5 + length - 1)))))"

text \<open>\<^verbatim>\<open>chunk_data\<close> as a whole: the early \<^verbatim>\<open>return\<close> is \<open>Inr None\<close>.\<close>

definition chunk_data ::
  "('n, 'c) collaborators \<Rightarrow> 'c region \<Rightarrow> int \<Rightarrow> int \<Rightarrow> error + 'n option" where
  "chunk_data ext self chunk_x chunk_z =
     (case compressed_data self chunk_x chunk_z of
        Inl e \<Rightarrow> Inl e
      | Inr None \<Rightarrow> Inr None
      | Inr (Some bs) \<Rightarrow> inflate_parse ext bs)"

text \<open>\<^verbatim>\<open>get_chunk\<close>: \<^verbatim>\<open>anvil.Chunk(self.chunk_data(chunk_x, chunk_z))\<close>.\<close>

definition get_chunk ::
  "('n, 'c) collaborators \<Rightarrow> 'c region \<Rightarrow> int \<Rightarrow> int \<Rightarrow> error + 'c" where
  "get_chunk ext self chunk_x chunk_z =
     (case chunk_data ext self chunk_x chunk_z of
        Inl e \<Rightarrow> Inl e
      | Inr nbt_data \<Rightarrow>
          (case Chunk ext nbt_data of
             None \<Rightarrow> Inl ChunkError
           | Some c \<Rightarrow> Inr c))"

subsection \<open>The sweep\<close>

text \<open>
  \<^verbatim>\<open>load\<close> appends to \<^verbatim>\<open>self.chunks\<close> inside two nested loops. An exception leaves the
  loops at once, and the entries appended so far stay in the list: the model returns
  the region as it stands together with the exception, if any.
\<close>

fun load_cz :: "('n, 'c) collaborators \<Rightarrow> int \<Rightarrow> int list \<Rightarrow> 'c region \<Rightarrow> 'c region \<times> error option" where
  "load_cz ext cx [] self = (self, None)"
| "load_cz ext cx (cz # czs) self =
     (case get_chunk ext self cx cz of
        Inl e \<Rightarrow> (self, Some e)
      | Inr c \<Rightarrow> load_cz ext cx czs (self\<lparr>chunks := chunks self @ [c]\<rparr>))"

fun load_cx :: "('n, 'c) collaborators \<Rightarrow> int list \<Rightarrow> 'c region \<Rightarrow> 'c region \<times> error option" where
  "load_cx ext [] self = (self, None)"
| "load_cx ext (cx # cxs) self =
     (case load_cz ext cx [0..31] self of
        (self', Some e) \<Rightarrow> (self', Some e)
      | (self', None) \<Rightarrow> load_cx ext cxs self')"

definition load :: "('n, 'c) collaborators \<Rightarrow> 'c region \<Rightarrow> 'c region \<times> error option" where
  "load ext self = load_cx ext [0..31] self"

text \<open>\<open>n\<close> calls of \<^verbatim>\<open>load\<close> in a row on the same region, stopping at the first exception.\<close>

fun load_times :: "('n, 'c) collaborators \<Rightarrow> nat \<Rightarrow> 'c region \<Rightarrow> 'c region \<times> error option" where
  "load_times ext 0 self = (self, None)"
| "load_times ext (Suc n) self =
     (case load ext self of
        (self', Some e) \<Rightarrow> (self', Some e)
      | (self', None) \<Rightarrow> load_times ext n self')"

subsection \<open>Sample files\<close>

text \<open>
  The four bytes of the smallest NBT file, a compound tag with an empty name and no
  entry, and the twelve bytes that \<^verbatim>\<open>zlib.compress\<close> makes of them.
\<close>

definition nbt_sample :: "byte list" where
  "nbt_sample = [0x0A, 0x00, 0x00, 0x00]"

definition zlib_sample :: "byte list" where
  "zlib_sample =
     [0x78, 0x9C, 0xE3, 0x62, 0x60, 0x60, 0x00, 0x00, 0x00, 0x2C, 0x00, 0x0B]"

text \<open>
  A region file of three sectors: a header whose only entry that is not zero stands at
  byte \<open>b_off\<close> and says sector 2, one sector long; the sector of timestamps; and in
  sector 2 a record made of the four bytes \<open>len4\<close>, the compression tag \<open>tag\<close>, the
  bytes \<open>zlib_sample\<close> and zeros up to the end of the sector.
\<close>

definition sample_file :: "nat \<Rightarrow> byte list \<Rightarrow> byte \<Rightarrow> byte list" where
  "sample_file b_off len4 tag =
     replicate b_off 0 @ [0, 0, 2, 1] @ replicate (4092 - b_off) 0 @ replicate 4096 0
     @ len4 @ [tag] @ zlib_sample @ replicate 4079 0"

definition sample_region :: "nat \<Rightarrow> byte list \<Rightarrow> byte \<Rightarrow> byte list option region" where
  "sample_region b_off len4 tag = Region ''r.0.0.mca'' (sample_file b_off len4 tag)"

text \<open>
  A file cut after its two header sectors, whose first entry still says sector 2.
\<close>

definition header_only_region :: "byte list option region" where
  "header_only_region = Region ''r.0.0.mca'' ([0, 0, 2, 1] @ replicate 8188 0)"

text \<open>
  Collaborators to run the samples with: a decompressor that knows the one stream
  \<open>zlib_sample\<close>, with or without zero bytes after it (\<^verbatim>\<open>zlib.decompress\<close> stops at
  the end of the stream), a parser that knows the one file \<open>nbt_sample\<close> and returns
  its bytes as the tree, and a chunk that is the value it is built from.
\<close>

definition sample_ext :: "(byte list, byte list option) collaborators" where
  "sample_ext =
     \<lparr>zlib_decompress =
        (\<lambda>bs. if take 12 bs = zlib_sample \<and> drop 12 bs = replicate (length bs - 12) 0
              then Some nbt_sample else None),
      NBTFile = (\<lambda>bs. if bs = nbt_sample then Some bs else None),
      Chunk = Some\<rparr>"

section \<open>Reading bytes\<close>

lemma getslice_nonneg:
  assumes "0 \<le> i" "0 \<le> j"
  shows "getslice xs i j = take (nat (j - i)) (drop (nat i) xs)"
  using assms by (auto simp: getslice_def Let_def min_def)

lemma getitem_in_range:
  assumes "0 \<le> i" "i < int (length xs)"
  shows "getitem xs i = Inr (xs ! nat i)"
  using assms by (simp add: getitem_def)

lemma getitem_out_of_range:
  assumes "0 \<le> i" "int (length xs) \<le> i"
  shows "getitem xs i = Inl IndexError"
  using assms by (simp add: getitem_def)

lemma getitem_Inr_iff:
  assumes "0 \<le> i"
  shows "getitem xs i = Inr b \<longleftrightarrow> i < int (length xs) \<and> xs ! nat i = b"
  using assms by (auto simp: getitem_def)

lemma take3_drop:
  assumes "n + 3 \<le> length xs"
  shows "take 3 (drop n xs) = [xs ! n, xs ! (n + 1), xs ! (n + 2)]"
  using assms by (auto simp: list_eq_iff_nth_eq nth_Cons' less_Suc_eq numeral_3_eq_3)

lemma from_bytes_big3: "from_bytes_big [a, b, c] = uint a * 65536 + uint b * 256 + uint c"
  by (simp add: from_bytes_big_def)

lemma from_bytes_big_nonneg: "0 \<le> from_bytes_big bs"
proof -
  have "0 \<le> acc \<Longrightarrow> 0 \<le> foldl (\<lambda>acc b. acc * 256 + uint b) acc bs" for acc
    by (induction bs arbitrary: acc) simp_all
  then show ?thesis by (simp add: from_bytes_big_def)
qed

lemma getslice_middle:
  assumes "i = int (length a)" and "j = i + int (length b)"
  shows "getslice (a @ b @ c) i j = b"
  using assms by (simp add: getslice_def)

lemma getitem_after:
  "getitem (a @ t # c) (int (length a)) = Inr t"
  by (simp add: getitem_def)

section \<open>The header offset\<close>

lemma entry_index_range:
  fixes a b :: int
  assumes "0 \<le> a" "a < 32" "0 \<le> b" "b < 32"
  shows "0 \<le> 4 * (a + b * 32) \<and> 4 * (a + b * 32) \<le> 4092"
  using assms by auto

lemma header_offset_range: "0 \<le> header_offset x z \<and> header_offset x z \<le> 4092"
  unfolding header_offset_def
  by (rule entry_index_range) simp_all

text \<open>
  C3. For all integers \<open>x\<close> and \<open>z\<close>, negative ones included, the header offset is
  unchanged when 32 is added to either coordinate, lies between 0 and 4092 and is a
  multiple of 4; the coordinates are normalised with the floored modulo, so that
  \<open>(-1, -1)\<close> lands on the last entry.
\<close>

theorem header_offset_periodic:
  "header_offset x z = header_offset (x + 32) z
   \<and> header_offset x z = header_offset x (z + 32)
   \<and> 0 \<le> header_offset x z \<and> header_offset x z \<le> 4092
   \<and> header_offset x z mod 4 = 0
   \<and> header_offset (- 1) (- 1) = 4092"
proof -
  have "header_offset x z = header_offset (x + 32) z"
    by (simp add: header_offset_def)
  moreover have "header_offset x z = header_offset x (z + 32)"
    by (simp add: header_offset_def)
  moreover have "header_offset x z mod 4 = 0"
    by (simp add: header_offset_def)
  moreover have "header_offset (- 1) (- 1) = 4092"
    by (simp add: header_offset_def)
  ultimately show ?thesis
    using header_offset_range [of x z] by simp
qed

lemma header_offset_multiple: "\<exists>m. header_offset x z = 4 * int m \<and> m < 1024"
proof -
  have "0 \<le> x mod 32 + z mod 32 * 32" "x mod 32 + z mod 32 * 32 < 1024"
    using entry_index_range [of "x mod 32" "z mod 32"] by simp_all
  then have "header_offset x z = 4 * int (nat (x mod 32 + z mod 32 * 32))
      \<and> nat (x mod 32 + z mod 32 * 32) < 1024"
    unfolding header_offset_def by simp
  then show ?thesis by blast
qed

text \<open>
  C4. The header offset is injective on the 1024 pairs of coordinates between 0 and
  31: two such pairs with the same offset are the same pair.
\<close>

theorem header_offset_injective:
  assumes "x1 \<in> {0..31}" "z1 \<in> {0..31}" "x2 \<in> {0..31}" "z2 \<in> {0..31}"
    and "header_offset x1 z1 = header_offset x2 z2"
  shows "(x1, z1) = (x2, z2)"
proof -
  have m: "x1 mod 32 = x1" "z1 mod 32 = z1" "x2 mod 32 = x2" "z2 mod 32 = z2"
    using assms(1-4) by simp_all
  have "x1 + z1 * 32 = x2 + z2 * 32"
    using assms(5) by (simp add: header_offset_def m)
  moreover have "0 \<le> x1 \<and> x1 \<le> 31 \<and> 0 \<le> x2 \<and> x2 \<le> 31"
    using assms(1,3) by simp
  ultimately have "x1 = x2 \<and> z1 = z2"
    by arith
  then show ?thesis by simp
qed

section \<open>The location of a chunk\<close>

lemma chunk_location_header:
  assumes "header_offset x z + 3 < int (length (data self))"
  shows "chunk_location self x z =
    Inr (uint (data self ! nat (header_offset x z)) * 65536
         + uint (data self ! (nat (header_offset x z) + 1)) * 256
         + uint (data self ! (nat (header_offset x z) + 2)),
         uint (data self ! (nat (header_offset x z) + 3)))"
proof -
  let ?b = "header_offset x z"
  have b0: "0 \<le> ?b" using header_offset_range [of x z] by simp
  have len: "nat ?b + 3 \<le> length (data self)" using assms b0 by linarith
  have "getslice (data self) ?b (?b + 3) = take 3 (drop (nat ?b) (data self))"
    using b0 by (simp add: getslice_nonneg)
  then have sl: "from_bytes_big (getslice (data self) ?b (?b + 3)) =
     uint (data self ! nat ?b) * 65536 + uint (data self ! (nat ?b + 1)) * 256
         + uint (data self ! (nat ?b + 2))"
    using len by (simp add: take3_drop from_bytes_big3)
  have gi: "getitem (data self) (?b + 3) = Inr (data self ! (nat ?b + 3))"
    using assms b0 by (simp add: getitem_in_range nat_add_distrib)
  show ?thesis
    unfolding chunk_location_def Let_def sl gi by simp
qed

lemma chunk_location_Inr_length:
  assumes "chunk_location self x z = Inr loc"
  shows "header_offset x z + 3 < int (length (data self))"
proof (rule ccontr)
  assume "\<not> ?thesis"
  then have "getitem (data self) (header_offset x z + 3) = Inl IndexError"
    using header_offset_range [of x z] by (simp add: getitem_out_of_range)
  with assms show False by (simp add: chunk_location_def Let_def)
qed

lemma chunk_location_nonneg:
  assumes "chunk_location self x z = Inr loc"
  shows "0 \<le> fst loc \<and> 0 \<le> snd loc"
  using assms chunk_location_header [OF chunk_location_Inr_length [OF assms]]
  by auto

lemma chunk_location_take:
  assumes "chunk_location self x z = Inr loc"
  shows "chunk_location (self\<lparr>data := take 4096 (data self)\<rparr>) x z = Inr loc"
proof -
  let ?b = "header_offset x z"
  have r: "0 \<le> ?b" "?b \<le> 4092" using header_offset_range [of x z] by simp_all
  have len: "?b + 3 < int (length (data self))"
    using assms by (rule chunk_location_Inr_length)
  have len': "?b + 3 < int (length (data (self\<lparr>data := take 4096 (data self)\<rparr>)))"
    using len r by simp
  have nth: "\<And>k. k < 4 \<Longrightarrow> take 4096 (data self) ! (nat ?b + k) = data self ! (nat ?b + k)"
    using r by (intro nth_take) linarith
  show ?thesis
    using assms nth [of 0] nth [of 1] nth [of 2] nth [of 3]
    unfolding chunk_location_header [OF len] chunk_location_header [OF len']
    by simp
qed

lemma be3_zero_iff:
  fixes a b c :: byte
  shows "uint a * 65536 + uint b * 256 + uint c = 0 \<longleftrightarrow> a = 0 \<and> b = 0 \<and> c = 0"
proof
  assume z: "uint a * 65536 + uint b * 256 + uint c = 0"
  have "0 \<le> uint a" "0 \<le> uint b" "0 \<le> uint c"
    by simp_all
  with z have "uint a = 0 \<and> uint b = 0 \<and> uint c = 0"
    by linarith
  then show "a = 0 \<and> b = 0 \<and> c = 0"
    by (simp add: uint_0_iff)
next
  assume "a = 0 \<and> b = 0 \<and> c = 0"
  then show "uint a * 65536 + uint b * 256 + uint c = 0"
    by simp
qed

text \<open>
  C5. For every pair of coordinates and every buffer that holds the two header sectors
  (8192 bytes or more), \<open>chunk_location\<close> returns, as a value, the pair of the three
  bytes at the header offset read as a big-endian unsigned integer and of the byte
  three places further; it returns the pair \<open>(0, 0)\<close>, also as a value and not as an
  error, exactly when these four bytes are zero.
\<close>

theorem chunk_location_reads_entry:
  assumes "8192 \<le> length (data self)"
  shows "chunk_location self x z =
      Inr (uint (data self ! nat (header_offset x z)) * 65536
           + uint (data self ! (nat (header_offset x z) + 1)) * 256
           + uint (data self ! (nat (header_offset x z) + 2)),
           uint (data self ! (nat (header_offset x z) + 3)))
    \<and> (chunk_location self x z = Inr (0, 0) \<longleftrightarrow>
          data self ! nat (header_offset x z) = 0
          \<and> data self ! (nat (header_offset x z) + 1) = 0
          \<and> data self ! (nat (header_offset x z) + 2) = 0
          \<and> data self ! (nat (header_offset x z) + 3) = 0)"
proof -
  have "header_offset x z + 3 < int (length (data self))"
    using assms header_offset_range [of x z] by linarith
  then have loc: "chunk_location self x z =
      Inr (uint (data self ! nat (header_offset x z)) * 65536
           + uint (data self ! (nat (header_offset x z) + 1)) * 256
           + uint (data self ! (nat (header_offset x z) + 2)),
           uint (data self ! (nat (header_offset x z) + 3)))"
    by (rule chunk_location_header)
  show ?thesis
    unfolding loc by (simp add: be3_zero_iff uint_0_iff)
qed

section \<open>The payload of a chunk\<close>

lemma compressed_data_located:
  assumes "chunk_location self x z = Inr loc" "loc \<noteq> (0, 0)"
  shows "compressed_data self x z =
     (case getitem (data self) (fst loc * 4096 + 4) of
        Inl e \<Rightarrow> Inl e
      | Inr t \<Rightarrow>
          if t = 1 then Inl GZipChunkData
          else Inr (Some (getslice (data self) (fst loc * 4096 + 5)
                 (fst loc * 4096 + 5
                  + from_bytes_big (getslice (data self) (fst loc * 4096) (fst loc * 4096 + 4)) - 1))))"
  using assms by (simp add: compressed_data_def Let_def)

lemma compressed_data_absent:
  assumes "chunk_location self x z = Inr (0, 0)"
  shows "compressed_data self x z = Inr None"
  using assms by (simp add: compressed_data_def)

lemma inflate_parse_not_gzip: "inflate_parse ext bs \<noteq> Inl GZipChunkData"
  by (simp add: inflate_parse_def split: option.splits)

lemma chunk_data_of_compressed:
  "compressed_data self x z = Inr (Some bs) \<Longrightarrow> chunk_data ext self x z = inflate_parse ext bs"
  "compressed_data self x z = Inr None \<Longrightarrow> chunk_data ext self x z = Inr None"
  "compressed_data self x z = Inl e \<Longrightarrow> chunk_data ext self x z = Inl e"
  by (simp_all add: chunk_data_def)

text \<open>
  C6. When the header entry of \<open>(chunk_x, chunk_z)\<close> is all zero, that is when
  \<open>chunk_location\<close> returns \<open>(0, 0)\<close>, \<open>chunk_data\<close> leaves by its early return: the
  result is the absent value \<open>None\<close> and not an exception, whatever the collaborators
  are, and nothing is handed to the decompressor. No byte after the header is read:
  the result is the same on the buffer cut to its first 4096 bytes.
\<close>

theorem absent_chunk:
  assumes "chunk_location self x z = Inr (0, 0)"
  shows "compressed_data self x z = Inr None
    \<and> chunk_data ext self x z = Inr None
    \<and> chunk_data ext (self\<lparr>data := take 4096 (data self)\<rparr>) x z = Inr None"
proof -
  have a: "compressed_data self x z = Inr None"
    using assms by (rule compressed_data_absent)
  have b: "compressed_data (self\<lparr>data := take 4096 (data self)\<rparr>) x z = Inr None"
    using chunk_location_take [OF assms] by (rule compressed_data_absent)
  show ?thesis
    using a b by (simp add: chunk_data_of_compressed)
qed

text \<open>
  C2. When the header entry is not zero and the compression tag of the record is 1
  (gzip), \<open>chunk_data\<close> raises \<open>GZipChunkData\<close>, an error of its own kind. It is
  raised before the payload is sliced, so nothing reaches the decompressor, and the
  result is the same for every decompressor and parser.
\<close>

theorem gzip_chunk_rejected:
  assumes "chunk_location self x z = Inr loc" and "loc \<noteq> (0, 0)"
    and "getitem (data self) (fst loc * 4096 + 4) = Inr 1"
  shows "compressed_data self x z = Inl GZipChunkData
    \<and> chunk_data ext self x z = Inl GZipChunkData"
proof -
  have "compressed_data self x z = Inl GZipChunkData"
    using assms(3) by (simp add: compressed_data_located [OF assms(1,2)])
  then show ?thesis by (simp add: chunk_data_of_compressed)
qed

lemma compressed_data_other_tag:
  assumes "chunk_location self x z = Inr loc" and "loc \<noteq> (0, 0)"
    and "getitem (data self) (fst loc * 4096 + 4) = Inr tag" and "tag \<noteq> 1"
  shows "compressed_data self x z =
      Inr (Some (getslice (data self) (fst loc * 4096 + 5)
        (fst loc * 4096 + 5
          + from_bytes_big (getslice (data self) (fst loc * 4096) (fst loc * 4096 + 4)) - 1)))"
  using assms(3,4) by (simp add: compressed_data_located [OF assms(1,2)])

text \<open>
  C1, as amended. The code compares the tag with 1 and with nothing else. When the
  header entry is not zero and the tag is anything but 1 (2, or an unknown tag such as
  99), \<open>chunk_data\<close> raises no error of unsupported compression: it hands the slice
  \<^verbatim>\<open>data[off + 5 : off + 5 + length - 1]\<close> to the decompressor and returns what
  decompression and parsing make of it.
\<close>

theorem other_tags_inflated:
  assumes "chunk_location self x z = Inr loc" and "loc \<noteq> (0, 0)"
    and "getitem (data self) (fst loc * 4096 + 4) = Inr tag" and "tag \<noteq> 1"
  shows "compressed_data self x z =
      Inr (Some (getslice (data self) (fst loc * 4096 + 5)
        (fst loc * 4096 + 5
          + from_bytes_big (getslice (data self) (fst loc * 4096) (fst loc * 4096 + 4)) - 1)))
    \<and> chunk_data ext self x z =
      inflate_parse ext (getslice (data self) (fst loc * 4096 + 5)
        (fst loc * 4096 + 5
          + from_bytes_big (getslice (data self) (fst loc * 4096) (fst loc * 4096 + 4)) - 1))
    \<and> chunk_data ext self x z \<noteq> Inl GZipChunkData"
proof -
  let ?bs = "getslice (data self) (fst loc * 4096 + 5)
        (fst loc * 4096 + 5
          + from_bytes_big (getslice (data self) (fst loc * 4096) (fst loc * 4096 + 4)) - 1)"
  have "compressed_data self x z = Inr (Some ?bs)"
    using assms by (rule compressed_data_other_tag)
  then show ?thesis
    by (simp add: chunk_data_of_compressed inflate_parse_not_gzip)
qed

lemma compressed_data_record:
  assumes "chunk_location self x z = Inr loc" and "loc \<noteq> (0, 0)"
    and "data self = pre @ len4 @ [tag] @ payload @ post"
    and "int (length pre) = fst loc * 4096"
    and "length len4 = 4"
    and "from_bytes_big len4 = int (length payload) + 1"
    and "tag \<noteq> 1"
  shows "compressed_data self x z = Inr (Some payload)"
proof -
  let ?off = "fst loc * 4096"
  have len: "getslice (data self) ?off (?off + 4) = len4"
    unfolding assms(3) by (rule getslice_middle) (simp_all add: assms(4,5))
  have tag: "getitem (data self) (?off + 4) = Inr tag"
    using getitem_after [of "pre @ len4" tag "payload @ post"] assms(3,4,5) by simp
  have L: "from_bytes_big (getslice (data self) ?off (?off + 4)) = int (length payload) + 1"
    by (simp add: len assms(6))
  have "getslice ((pre @ len4 @ [tag]) @ payload @ post) (?off + 5)
          (?off + 5 + (int (length payload) + 1) - 1) = payload"
    by (rule getslice_middle) (simp_all add: assms(4,5))
  then have "getslice (data self) (?off + 5)
          (?off + 5 + (int (length payload) + 1) - 1) = payload"
    by (simp add: assms(3))
  then have pay: "getslice (data self) (?off + 5)
          (?off + 5 + from_bytes_big (getslice (data self) ?off (?off + 4)) - 1) = payload"
    by (simp only: L)
  show ?thesis
    by (simp only: compressed_data_other_tag [OF assms(1,2) tag assms(7)] pay)
qed

text \<open>
  C7. Round trip. Let the header entry of \<open>(chunk_x, chunk_z)\<close> be a location that is
  not \<open>(0, 0)\<close>, and let the buffer hold at byte \<open>sector_offset * 4096\<close> a record made
  of four bytes that read as the big-endian length \<open>L\<close>, the tag 2 and the \<open>L - 1\<close>
  bytes of the zlib compression of a byte string \<open>P\<close> (any function \<open>compress\<close> that
  the decompressor inverts at \<open>P\<close>). Then \<open>chunk_data\<close> hands exactly those \<open>L - 1\<close>
  bytes to the decompressor and returns what the NBT parser makes of exactly \<open>P\<close>.
\<close>

theorem zlib_round_trip:
  assumes "chunk_location self x z = Inr loc" and "loc \<noteq> (0, 0)"
    and "data self = pre @ len4 @ [2] @ compress P @ post"
    and "int (length pre) = fst loc * 4096"
    and "length len4 = 4"
    and "from_bytes_big len4 = int (length (compress P)) + 1"
    and "zlib_decompress ext (compress P) = Some P"
  shows "compressed_data self x z = Inr (Some (compress P))
    \<and> chunk_data ext self x z =
        (case NBTFile ext P of None \<Rightarrow> Inl MalformedNBT | Some tree \<Rightarrow> Inr (Some tree))"
proof -
  have ne: "(2::byte) \<noteq> 1"
    by simp
  have "compressed_data self x z = Inr (Some (compress P))"
    using assms(1-6) ne by (rule compressed_data_record)
  then show ?thesis
    by (simp add: chunk_data_of_compressed inflate_parse_def assms(7))
qed

text \<open>
  C8, as amended. The code checks no bound. For a header entry that is not zero: when
  the tag byte at \<open>off + 4\<close> lies beyond the buffer, reading it raises \<open>IndexError\<close>;
  when the tag byte is inside the buffer and is not 1, and the declared length makes
  the record end beyond the buffer, the payload slice is cut without notice at the end
  of the buffer and those bytes are handed to the decompressor, whose outcome, with
  that of the parser, is returned.
\<close>

theorem no_bounds_check:
  assumes "chunk_location self x z = Inr loc" and "loc \<noteq> (0, 0)"
  shows "(int (length (data self)) \<le> fst loc * 4096 + 4 \<longrightarrow>
            compressed_data self x z = Inl IndexError
            \<and> chunk_data ext self x z = Inl IndexError)
    \<and> (getitem (data self) (fst loc * 4096 + 4) = Inr tag \<and> tag \<noteq> 1
        \<and> int (length (data self)) < fst loc * 4096 + 4
             + from_bytes_big (getslice (data self) (fst loc * 4096) (fst loc * 4096 + 4)) \<longrightarrow>
            compressed_data self x z = Inr (Some (drop (nat (fst loc * 4096 + 5)) (data self)))
            \<and> chunk_data ext self x z =
                inflate_parse ext (drop (nat (fst loc * 4096 + 5)) (data self)))"
proof -
  let ?off = "fst loc * 4096"
  let ?L = "from_bytes_big (getslice (data self) ?off (?off + 4))"
  have off0: "0 \<le> ?off"
    using chunk_location_nonneg [OF assms(1)] by simp
  have A: "compressed_data self x z = Inl IndexError"
    if "int (length (data self)) \<le> ?off + 4"
  proof -
    have "getitem (data self) (?off + 4) = Inl IndexError"
      using that off0 by (simp add: getitem_out_of_range)
    then show ?thesis by (simp add: compressed_data_located [OF assms(1,2)])
  qed
  have B: "compressed_data self x z = Inr (Some (drop (nat (?off + 5)) (data self)))"
    if t: "getitem (data self) (?off + 4) = Inr tag" "tag \<noteq> 1"
      and past: "int (length (data self)) < ?off + 4 + ?L"
  proof -
    have inside: "?off + 4 < int (length (data self))"
      using t(1) off0 by (simp add: getitem_Inr_iff)
    have "getslice (data self) (?off + 5) (?off + 5 + ?L - 1) = drop (nat (?off + 5)) (data self)"
      using inside off0 past from_bytes_big_nonneg [of "getslice (data self) ?off (?off + 4)"]
      by (simp add: getslice_def Let_def min_def)
    then show ?thesis
      using t by (simp add: compressed_data_located [OF assms(1,2)])
  qed
  show ?thesis
    using A B by (auto simp: chunk_data_of_compressed)
qed

section \<open>The sweep\<close>

lemma get_chunk_data_cong:
  assumes "data s' = data s"
  shows "get_chunk ext s' x z = get_chunk ext s x z"
proof -
  have "chunk_location s' x z = chunk_location s x z"
    unfolding chunk_location_def assms ..
  then have "compressed_data s' x z = compressed_data s x z"
    unfolding compressed_data_def assms by simp
  then show ?thesis
    unfolding get_chunk_def chunk_data_def by simp
qed

lemma load_cz_frame:
  "name (fst (load_cz ext cx czs s)) = name s
   \<and> data (fst (load_cz ext cx czs s)) = data s
   \<and> (\<exists>new. chunks (fst (load_cz ext cx czs s)) = chunks s @ new)"
proof (induction czs arbitrary: s)
  case Nil
  then show ?case by simp
next
  case (Cons cz czs)
  show ?case
  proof (cases "get_chunk ext s cx cz")
    case (Inl e)
    then show ?thesis by simp
  next
    case (Inr c)
    then show ?thesis
      using Cons.IH [of "s\<lparr>chunks := chunks s @ [c]\<rparr>"] by auto
  qed
qed

lemma load_cz_ok:
  assumes "\<forall>cz\<in>set czs. get_chunk ext s cx cz = Inr (f cz)"
  shows "load_cz ext cx czs s = (s\<lparr>chunks := chunks s @ map f czs\<rparr>, None)"
  using assms
proof (induction czs arbitrary: s)
  case Nil
  then show ?case by simp
next
  case (Cons cz czs)
  let ?s = "s\<lparr>chunks := chunks s @ [f cz]\<rparr>"
  have "\<forall>c\<in>set czs. get_chunk ext ?s cx c = Inr (f c)"
    using Cons.prems by (simp add: get_chunk_data_cong [of ?s s])
  from Cons.IH [OF this] Cons.prems show ?case by simp
qed

lemma load_cz_None:
  assumes "snd (load_cz ext cx czs s) = None"
  shows "\<forall>cz\<in>set czs. \<exists>c. get_chunk ext s cx cz = Inr c"
  using assms
proof (induction czs arbitrary: s)
  case Nil
  then show ?case by simp
next
  case (Cons cz czs)
  then obtain c where c: "get_chunk ext s cx cz = Inr c"
    by (cases "get_chunk ext s cx cz") auto
  let ?s = "s\<lparr>chunks := chunks s @ [c]\<rparr>"
  have "snd (load_cz ext cx czs ?s) = None"
    using Cons.prems c by simp
  from Cons.IH [OF this] have "\<forall>cz\<in>set czs. \<exists>c. get_chunk ext s cx cz = Inr c"
    by (simp add: get_chunk_data_cong [of ?s s])
  with c show ?case by simp
qed

lemma load_cx_frame:
  "name (fst (load_cx ext cxs s)) = name s
   \<and> data (fst (load_cx ext cxs s)) = data s
   \<and> (\<exists>new. chunks (fst (load_cx ext cxs s)) = chunks s @ new)"
proof (induction cxs arbitrary: s)
  case Nil
  then show ?case by simp
next
  case (Cons cx cxs)
  obtain s1 r1 where r: "load_cz ext cx [0..31] s = (s1, r1)"
    by (cases "load_cz ext cx [0..31] s")
  have f1: "name s1 = name s" "data s1 = data s" "\<exists>new. chunks s1 = chunks s @ new"
    using load_cz_frame [of ext cx "[0..31]" s] r by simp_all
  show ?case
  proof (cases r1)
    case None
    then show ?thesis
      using r f1 Cons.IH [of s1] by auto
  next
    case (Some e)
    then show ?thesis
      using r f1 by simp
  qed
qed

lemma load_cx_ok:
  assumes "\<forall>cx\<in>set cxs. \<forall>cz\<in>{0..31}. get_chunk ext s cx cz = Inr (f cx cz)"
  shows "load_cx ext cxs s =
    (s\<lparr>chunks := chunks s @ concat (map (\<lambda>cx. map (f cx) [0..31]) cxs)\<rparr>, None)"
  using assms
proof (induction cxs arbitrary: s)
  case Nil
  then show ?case by simp
next
  case (Cons cx cxs)
  let ?s = "s\<lparr>chunks := chunks s @ map (f cx) [0..31]\<rparr>"
  have row: "load_cz ext cx [0..31] s = (?s, None)"
    using Cons.prems by (intro load_cz_ok) simp
  have "\<forall>x\<in>set cxs. \<forall>cz\<in>{0..31}. get_chunk ext ?s x cz = Inr (f x cz)"
    using Cons.prems by (simp add: get_chunk_data_cong [of ?s s])
  from Cons.IH [OF this] row show ?case by simp
qed

lemma load_cx_None:
  assumes "snd (load_cx ext cxs s) = None"
  shows "\<forall>cx\<in>set cxs. \<forall>cz\<in>{0..31}. \<exists>c. get_chunk ext s cx cz = Inr c"
  using assms
proof (induction cxs arbitrary: s)
  case Nil
  then show ?case by simp
next
  case (Cons cx cxs)
  obtain s1 r1 where r: "load_cz ext cx [0..31] s = (s1, r1)"
    by (cases "load_cz ext cx [0..31] s")
  have r1: "r1 = None"
    using Cons.prems r by (cases r1) simp_all
  have d1: "data s1 = data s"
    using load_cz_frame [of ext cx "[0..31]" s] r by simp
  have row: "\<forall>cz\<in>{0..31}. \<exists>c. get_chunk ext s cx cz = Inr c"
    using load_cz_None [of ext cx "[0..31]" s] r r1 by simp
  have "snd (load_cx ext cxs s1) = None"
    using Cons.prems r r1 by simp
  from Cons.IH [OF this] have "\<forall>x\<in>set cxs. \<forall>cz\<in>{0..31}. \<exists>c. get_chunk ext s x cz = Inr c"
    by (simp add: get_chunk_data_cong [OF d1])
  with row show ?case by simp
qed

lemma concat_rows_nth:
  assumes "\<forall>x\<in>set xs. length (g x) = n" and "i < length xs" and "j < n"
  shows "concat (map g xs) ! (i * n + j) = g (xs ! i) ! j"
  using assms
proof (induction xs arbitrary: i)
  case Nil
  then show ?case by simp
next
  case (Cons x xs)
  show ?case
  proof (cases i)
    case 0
    then show ?thesis using Cons.prems by (simp add: nth_append)
  next
    case (Suc i')
    then have "concat (map g xs) ! (i' * n + j) = g (xs ! i') ! j"
      using Cons.prems by (intro Cons.IH) simp_all
    then show ?thesis using Cons.prems Suc by (simp add: nth_append)
  qed
qed

lemma concat_rows_length:
  assumes "\<forall>x\<in>set xs. length (g x) = n"
  shows "length (concat (map g xs)) = length xs * n"
  using assms by (induction xs) simp_all

lemma range32_nth:
  assumes "k \<in> {0..31}"
  shows "[0..31] ! nat k = k" and "nat k < length [0..31::int]"
proof -
  have "(0::int) + int (nat k) \<le> 31"
    using assms by simp
  then have "[0..31] ! nat k = 0 + int (nat k)"
    by (rule nth_upto)
  then show "[0..31] ! nat k = k"
    using assms by simp
  show "nat k < length [0..31::int]"
    using assms by auto
qed

lemma sweep_nth:
  assumes "x \<in> {0..31}" and "z \<in> {0..31}"
  shows "concat (map (\<lambda>cx. map (f cx) [0..31]) [0..31]) ! nat (32 * x + z) = f x z"
proof -
  have "concat (map (\<lambda>cx. map (f cx) [0..31]) [0..31]) ! (nat x * 32 + nat z)
      = (\<lambda>cx. map (f cx) [0..31]) ([0..31] ! nat x) ! nat z"
    using assms by (intro concat_rows_nth) auto
  also have "\<dots> = map (f x) [0..31] ! nat z"
    by (simp only: range32_nth(1) [OF assms(1)])
  also have "\<dots> = f x ([0..31] ! nat z)"
    using range32_nth(2) [OF assms(2)] by (rule nth_map)
  also have "\<dots> = f x z"
    by (simp only: range32_nth(1) [OF assms(2)])
  finally have "concat (map (\<lambda>cx. map (f cx) [0..31]) [0..31]) ! (nat x * 32 + nat z) = f x z" .
  moreover have "nat (32 * x + z) = nat x * 32 + nat z"
    using assms by (simp add: nat_add_distrib nat_mult_distrib)
  ultimately show ?thesis by simp
qed

lemma sweep_length: "length (concat (map (\<lambda>cx. map (f cx) [0..31]) [0..31]) :: 'a list) = 1024"
proof -
  have "length (concat (map (\<lambda>cx. map (f cx) [0..31]) [0..31])) = length [0..31::int] * 32"
    by (rule concat_rows_length) simp
  then show ?thesis by simp
qed

lemma all_ok_projr:
  assumes ok: "\<forall>x\<in>{0..31}. \<forall>z\<in>{0..31}. \<exists>c. get_chunk ext self x z = Inr c"
  shows "\<forall>cx\<in>set [0..31]. \<forall>cz\<in>{0..31}.
      get_chunk ext self cx cz = Inr (projr (get_chunk ext self cx cz))"
proof -
  have "get_chunk ext self cx cz = Inr (projr (get_chunk ext self cx cz))"
    if "cx \<in> {0..31}" "cz \<in> {0..31}" for cx cz
  proof -
    from ok that obtain c where "get_chunk ext self cx cz = Inr c"
      by blast
    then show ?thesis by simp
  qed
  then show ?thesis by simp
qed

lemma load_None_iff:
  "snd (load ext self) = None \<longleftrightarrow>
     (\<forall>x\<in>{0..31}. \<forall>z\<in>{0..31}. \<exists>c. get_chunk ext self x z = Inr c)"
proof
  assume "snd (load ext self) = None"
  then show "\<forall>x\<in>{0..31}. \<forall>z\<in>{0..31}. \<exists>c. get_chunk ext self x z = Inr c"
    using load_cx_None [of ext "[0..31]" self] by (simp add: load_def)
next
  assume ok: "\<forall>x\<in>{0..31}. \<forall>z\<in>{0..31}. \<exists>c. get_chunk ext self x z = Inr c"
  have "\<forall>cx\<in>set [0..31]. \<forall>cz\<in>{0..31}.
      get_chunk ext self cx cz = Inr (projr (get_chunk ext self cx cz))"
    using ok by (rule all_ok_projr)
  then show "snd (load ext self) = None"
    unfolding load_def by (simp only: load_cx_ok snd_conv)
qed

lemma load_result:
  assumes "snd (load ext self) = None"
  shows "load ext self =
    (self\<lparr>chunks := chunks self
        @ concat (map (\<lambda>cx. map (\<lambda>cz. projr (get_chunk ext self cx cz)) [0..31]) [0..31])\<rparr>,
     None)"
proof -
  have ok: "\<forall>x\<in>{0..31}. \<forall>z\<in>{0..31}. \<exists>c. get_chunk ext self x z = Inr c"
    using assms by (simp only: load_None_iff)
  have "\<forall>cx\<in>set [0..31]. \<forall>cz\<in>{0..31}.
      get_chunk ext self cx cz = Inr (projr (get_chunk ext self cx cz))"
    using ok by (rule all_ok_projr)
  then show ?thesis
    unfolding load_def by (rule load_cx_ok)
qed

lemma get_chunk_absent:
  assumes "chunk_location self x z = Inr (0, 0)"
  shows "get_chunk ext self x z =
     (case Chunk ext None of None \<Rightarrow> Inl ChunkError | Some c \<Rightarrow> Inr c)"
  using compressed_data_absent [OF assms]
  by (simp add: get_chunk_def chunk_data_of_compressed)

text \<open>
  C9. On a region whose list of chunks is empty, as \<^verbatim>\<open>__init__\<close> leaves it, the sweep
  completes exactly when every one of the 1024 retrievals succeeds, and it then leaves
  a list of exactly 1024 entries, one for every \<open>(x, z)\<close> with \<open>x\<close> and \<open>z\<close> between 0
  and 31, in the order of an outer loop over \<open>x\<close> and an inner loop over \<open>z\<close>: the
  entry of \<open>(x, z)\<close> stands at index \<open>32 * x + z\<close> and is what \<open>get_chunk\<close> returns there.
  A chunk that is not generated is not left out: its entry is the chunk that
  \<^verbatim>\<open>anvil.Chunk\<close> builds from \<^verbatim>\<open>None\<close>.
\<close>

theorem load_sweep:
  assumes "chunks self = []"
  shows "(snd (load ext self) = None \<longleftrightarrow>
            (\<forall>x\<in>{0..31}. \<forall>z\<in>{0..31}. \<exists>c. get_chunk ext self x z = Inr c))
    \<and> (snd (load ext self) = None \<longrightarrow>
          length (chunks (fst (load ext self))) = 1024
          \<and> (\<forall>x\<in>{0..31}. \<forall>z\<in>{0..31}.
                get_chunk ext self x z = Inr (chunks (fst (load ext self)) ! nat (32 * x + z)))
          \<and> (\<forall>x\<in>{0..31}. \<forall>z\<in>{0..31}. chunk_location self x z = Inr (0, 0) \<longrightarrow>
                Chunk ext None = Some (chunks (fst (load ext self)) ! nat (32 * x + z))))"
proof (intro conjI impI)
  show "snd (load ext self) = None \<longleftrightarrow>
            (\<forall>x\<in>{0..31}. \<forall>z\<in>{0..31}. \<exists>c. get_chunk ext self x z = Inr c)"
    by (rule load_None_iff)
next
  assume fin: "snd (load ext self) = None"
  let ?f = "\<lambda>cx cz. projr (get_chunk ext self cx cz)"
  have cs: "chunks (fst (load ext self)) = concat (map (\<lambda>cx. map (?f cx) [0..31]) [0..31])"
    by (simp add: load_result [OF fin] assms)
  show "length (chunks (fst (load ext self))) = 1024"
    unfolding cs by (rule sweep_length)
  have nth: "chunks (fst (load ext self)) ! nat (32 * x + z) = ?f x z"
    if "x \<in> {0..31}" "z \<in> {0..31}" for x z
    unfolding cs using that by (rule sweep_nth)
  have ok: "\<forall>x\<in>{0..31}. \<forall>z\<in>{0..31}. \<exists>c. get_chunk ext self x z = Inr c"
    using fin by (simp only: load_None_iff)
  show entries: "\<forall>x\<in>{0..31}. \<forall>z\<in>{0..31}.
      get_chunk ext self x z = Inr (chunks (fst (load ext self)) ! nat (32 * x + z))"
  proof (intro ballI)
    fix x z :: int
    assume xz: "x \<in> {0..31}" "z \<in> {0..31}"
    then obtain c where "get_chunk ext self x z = Inr c"
      using ok by blast
    then show "get_chunk ext self x z = Inr (chunks (fst (load ext self)) ! nat (32 * x + z))"
      by (simp add: nth [OF xz])
  qed
  show "\<forall>x\<in>{0..31}. \<forall>z\<in>{0..31}. chunk_location self x z = Inr (0, 0) \<longrightarrow>
      Chunk ext None = Some (chunks (fst (load ext self)) ! nat (32 * x + z))"
  proof (intro ballI impI)
    fix x z :: int
    assume xz: "x \<in> {0..31}" "z \<in> {0..31}" and absent: "chunk_location self x z = Inr (0, 0)"
    have "get_chunk ext self x z = Inr (chunks (fst (load ext self)) ! nat (32 * x + z))"
      using entries xz by blast
    then show "Chunk ext None = Some (chunks (fst (load ext self)) ! nat (32 * x + z))"
      unfolding get_chunk_absent [OF absent] by (simp split: option.splits)
  qed
qed

lemma load_frame:
  "name (fst (load ext self)) = name self \<and> data (fst (load ext self)) = data self
   \<and> (\<exists>new. chunks (fst (load ext self)) = chunks self @ new)"
  unfolding load_def by (rule load_cx_frame)

lemma load_adds_1024:
  assumes "snd (load ext self) = None"
  shows "\<exists>new. length new = 1024 \<and> chunks (fst (load ext self)) = chunks self @ new"
  using sweep_length by (simp add: load_result [OF assms])

lemma load_times_length:
  assumes "load_times ext n self = (self', None)"
  shows "length (chunks self') = length (chunks self) + 1024 * n
    \<and> name self' = name self \<and> data self' = data self"
  using assms
proof (induction n arbitrary: self)
  case 0
  then show ?case by simp
next
  case (Suc n)
  obtain s1 r1 where r: "load ext self = (s1, r1)"
    by (cases "load ext self")
  have r1: "r1 = None"
    using Suc.prems r by (cases r1) simp_all
  have "length (chunks s1) = length (chunks self) + 1024"
    and "name s1 = name self" and "data s1 = data self"
    using load_adds_1024 [of ext self] load_frame [of ext self] r r1 by auto
  moreover have "load_times ext n s1 = (self', None)"
    using Suc.prems r r1 by simp
  ultimately show ?case
    using Suc.IH [of s1] by simp
qed

text \<open>
  C10. \<open>load\<close> leaves \<open>name\<close> and \<open>data\<close> as they were and only appends to \<open>chunks\<close>,
  without clearing it; a call that completes appends exactly 1024 entries. So \<open>load\<close>
  is not idempotent: after a call that completes, a second call completes too and
  leaves a different region, and after \<open>n\<close> calls in a row that complete the list is
  longer by \<open>1024 * n\<close>. The methods \<open>chunk_location\<close> and
  \<open>chunk_data\<close> assign to no field, which is why they are functions of the region that
  return a value only; the sweep calls them 1024 times on a region whose \<open>name\<close> and
  \<open>data\<close> stay the same.
\<close>

theorem load_appends:
  "name (fst (load ext self)) = name self
   \<and> data (fst (load ext self)) = data self
   \<and> (\<exists>new. chunks (fst (load ext self)) = chunks self @ new
         \<and> (snd (load ext self) = None \<longrightarrow> length new = 1024))
   \<and> (snd (load ext self) = None \<longrightarrow>
         snd (load ext (fst (load ext self))) = None
         \<and> fst (load ext (fst (load ext self))) \<noteq> fst (load ext self))
   \<and> (load_times ext n self = (self', None) \<longrightarrow>
         length (chunks self') = length (chunks self) + 1024 * n
         \<and> name self' = name self \<and> data self' = data self)"
proof (intro conjI impI)
  show "name (fst (load ext self)) = name self" and "data (fst (load ext self)) = data self"
    using load_frame [of ext self] by simp_all
  show "\<exists>new. chunks (fst (load ext self)) = chunks self @ new
         \<and> (snd (load ext self) = None \<longrightarrow> length new = 1024)"
  proof (cases "snd (load ext self) = None")
    case True
    then show ?thesis using load_adds_1024 [of ext self] by auto
  next
    case False
    then show ?thesis using load_frame [of ext self] by auto
  qed
next
  assume fin: "snd (load ext self) = None"
  let ?s = "fst (load ext self)"
  have d: "data ?s = data self"
    using load_frame [of ext self] by simp
  show again: "snd (load ext ?s) = None"
    using fin unfolding load_None_iff by (simp add: get_chunk_data_cong [OF d])
  have "length (chunks (fst (load ext ?s))) = length (chunks ?s) + 1024"
    using load_adds_1024 [OF again] by auto
  then show "fst (load ext ?s) \<noteq> ?s"
    by auto
next
  assume "load_times ext n self = (self', None)"
  then have *: "length (chunks self') = length (chunks self) + 1024 * n
    \<and> name self' = name self \<and> data self' = data self"
    by (rule load_times_length)
  from * show "length (chunks self') = length (chunks self) + 1024 * n" by simp
  from * show "name self' = name self" by simp
  from * show "data self' = data self" by simp
qed

section \<open>The sample files\<close>

lemma data_Region: "data (Region nm contents) = contents"
  by (simp add: Region_def)

lemma data_sample_region: "data (sample_region b len4 tag) = sample_file b len4 tag"
  by (simp add: sample_region_def data_Region)

lemma chunks_sample_region: "chunks (sample_region b len4 tag) = []"
  by (simp add: sample_region_def Region_def)

lemma sample_file_record:
  assumes "b \<le> 4092"
  shows "sample_file b len4 tag =
     (replicate b 0 @ [0, 0, 2, 1] @ replicate (4092 - b) 0 @ replicate 4096 0)
     @ len4 @ [tag] @ zlib_sample @ replicate 4079 0"
    and "int (length (replicate b (0::byte) @ [0, 0, 2, 1] @ replicate (4092 - b) 0
           @ replicate 4096 0)) = 2 * 4096"
  using assms by (simp_all add: sample_file_def)

lemma sample_file_length:
  assumes "b \<le> 4092" and "length len4 = 4"
  shows "length (sample_file b len4 tag) = 12288"
  using assms by (simp add: sample_file_def zlib_sample_def)

lemma sample_header_nth:
  assumes "i < 4096" and "b \<le> 4092"
  shows "sample_file b len4 tag ! i =
     (if i = b + 2 then 2 else if i = b + 3 then 1 else 0)"
  using assms
  by (auto simp: sample_file_def nth_append nth_Cons')

lemma sample_location:
  assumes "q < 1024"
  shows "chunk_location (sample_region (4 * q) len4 tag) x z =
     Inr (if header_offset x z = 4 * int q then (2, 1) else (0, 0))"
proof -
  let ?d = "sample_file (4 * q) len4 tag"
  obtain m where m: "header_offset x z = 4 * int m" "m < 1024"
    using header_offset_multiple by blast
  have b: "4 * q \<le> 4092" using assms by simp
  have len: "header_offset x z + 3 < int (length (data (sample_region (4 * q) len4 tag)))"
    using m b by (simp add: data_sample_region sample_file_def)
  have n: "nat (header_offset x z) = 4 * m"
    using m by simp
  have nth: "?d ! (4 * m + k) =
      (if 4 * m + k = 4 * q + 2 then 2 else if 4 * m + k = 4 * q + 3 then 1 else 0)"
    if "k < 4" for k
    using that m b by (intro sample_header_nth) simp_all
  have ne: "4 * m \<noteq> 4 * q + 2" "4 * m \<noteq> 4 * q + 3"
    "4 * m + 1 \<noteq> 4 * q + 2" "4 * m + 1 \<noteq> 4 * q + 3"
    "4 * m + 2 \<noteq> 4 * q + 3" "4 * m + 3 \<noteq> 4 * q + 2"
    by presburger+
  have "?d ! (4 * m) = 0" "?d ! (4 * m + 1) = 0"
    using nth [of 0] nth [of 1] ne by simp_all
  moreover have "?d ! (4 * m + 2) = (if m = q then 2 else 0)"
    "?d ! (4 * m + 3) = (if m = q then 1 else 0)"
    using nth [of 2] nth [of 3] ne by simp_all
  ultimately show ?thesis
    unfolding chunk_location_header [OF len] data_sample_region n
    using m by simp
qed

lemma header_offset_origin: "header_offset 0 0 = 0"
  by (simp add: header_offset_def)

lemma sample_location_origin: "chunk_location (sample_region 0 len4 tag) 0 0 = Inr (2, 1)"
  using sample_location [of 0 len4 tag 0 0] by (simp add: header_offset_origin)

lemma sample_location_next: "chunk_location (sample_region 0 len4 tag) 1 0 = Inr (0, 0)"
  using sample_location [of 0 len4 tag 1 0] by (simp add: header_offset_def)

lemma sample_tag:
  assumes "length len4 = 4"
  shows "getitem (data (sample_region 0 len4 tag)) 8196 = Inr tag"
  using assms by (simp add: data_sample_region sample_file_def getitem_def nth_append)

lemma from_bytes_big_13: "from_bytes_big [0, 0, 0, 13] = 13"
  by (simp add: from_bytes_big_def)

lemma sample_compressed_data:
  assumes "q < 1024" and "header_offset x z = 4 * int q"
    and "length len4 = 4" and "from_bytes_big len4 = 13" and "tag \<noteq> 1"
  shows "compressed_data (sample_region (4 * q) len4 tag) x z = Inr (Some zlib_sample)"
proof -
  have b: "4 * q \<le> 4092" using assms(1) by simp
  have loc: "chunk_location (sample_region (4 * q) len4 tag) x z = Inr (2, 1)"
    using assms(2) by (simp add: sample_location [OF assms(1)])
  have nz: "(2::int, 1::int) \<noteq> (0, 0)" by simp
  show ?thesis
  proof (rule compressed_data_record [OF loc nz _ _ assms(3) _ assms(5)])
    show "data (sample_region (4 * q) len4 tag) =
      (replicate (4 * q) 0 @ [0, 0, 2, 1] @ replicate (4092 - 4 * q) 0 @ replicate 4096 0)
       @ len4 @ [tag] @ zlib_sample @ replicate 4079 0"
      unfolding data_sample_region by (rule sample_file_record(1) [OF b])
    show "int (length (replicate (4 * q) (0::byte) @ [0, 0, 2, 1] @ replicate (4092 - 4 * q) 0
           @ replicate 4096 0)) = fst (2::int, 1::int) * 4096"
      using sample_file_record(2) [OF b] by simp
    show "from_bytes_big len4 = int (length zlib_sample) + 1"
      by (simp add: assms(4) zlib_sample_def)
  qed
qed

lemma sample_compressed_data_origin:
  assumes "tag \<noteq> 1"
  shows "compressed_data (sample_region 0 [0, 0, 0, 13] tag) 0 0 = Inr (Some zlib_sample)"
  using sample_compressed_data [of 0 0 0 "[0, 0, 0, 13]" tag] assms
  by (simp add: header_offset_origin from_bytes_big_13)

lemma sample_decompress:
  "zlib_decompress sample_ext zlib_sample = Some nbt_sample"
  "zlib_decompress sample_ext (zlib_sample @ replicate 4079 0) = Some nbt_sample"
  by (simp_all add: sample_ext_def zlib_sample_def)

lemma sample_parse: "NBTFile sample_ext nbt_sample = Some nbt_sample"
  by (simp add: sample_ext_def)

lemma sample_inflate:
  "inflate_parse sample_ext zlib_sample = Inr (Some nbt_sample)"
  "inflate_parse sample_ext (zlib_sample @ replicate 4079 0) = Inr (Some nbt_sample)"
  by (simp_all add: inflate_parse_def sample_decompress sample_parse)

lemma sample_Chunk: "Chunk sample_ext v = Some v"
  by (simp add: sample_ext_def)

lemma sample_get_chunk:
  assumes "q < 1024"
  shows "get_chunk sample_ext (sample_region (4 * q) [0, 0, 0, 13] 2) x z =
     Inr (if header_offset x z = 4 * int q then Some nbt_sample else None)"
proof (cases "header_offset x z = 4 * int q")
  case True
  have "compressed_data (sample_region (4 * q) [0, 0, 0, 13] 2) x z = Inr (Some zlib_sample)"
    using assms True by (rule sample_compressed_data) (simp_all add: from_bytes_big_13)
  then have "chunk_data sample_ext (sample_region (4 * q) [0, 0, 0, 13] 2) x z
      = inflate_parse sample_ext zlib_sample"
    by (rule chunk_data_of_compressed(1))
  then show ?thesis
    using True by (simp add: get_chunk_def sample_inflate sample_Chunk)
next
  case False
  then have "chunk_location (sample_region (4 * q) [0, 0, 0, 13] 2) x z = Inr (0, 0)"
    by (simp add: sample_location [OF assms])
  then show ?thesis
    using False by (simp add: get_chunk_absent sample_Chunk)
qed

section \<open>The claims on the sample files\<close>

theorem header_offset_injective_witness:
  "(5::int) \<in> {0..31} \<and> (9::int) \<in> {0..31} \<and> header_offset 5 9 \<noteq> header_offset 9 5"
  using header_offset_injective [of 5 9 9 5] by auto

theorem chunk_location_reads_entry_witness:
  "8192 \<le> length (data (sample_region 0 [0, 0, 0, 13] 2))
   \<and> chunk_location (sample_region 0 [0, 0, 0, 13] 2) 0 0 = Inr (2, 1)
   \<and> chunk_location (sample_region 0 [0, 0, 0, 13] 2) 1 0 = Inr (0, 0)"
proof -
  let ?r = "sample_region 0 [0, 0, 0, 13] 2"
  have len: "8192 \<le> length (data ?r)"
    by (simp add: data_sample_region sample_file_length)
  have h: "nat (header_offset 0 0) = 0" "nat (header_offset 1 0) = 4"
    by (simp_all add: header_offset_def)
  show ?thesis
    using len chunk_location_reads_entry [OF len, of 0 0] chunk_location_reads_entry [OF len, of 1 0]
    by (simp add: h data_sample_region sample_header_nth)
qed

theorem absent_chunk_witness:
  "chunk_location (sample_region 0 [0, 0, 0, 13] 2) 1 0 = Inr (0, 0)
   \<and> compressed_data (sample_region 0 [0, 0, 0, 13] 2) 1 0 = Inr None
   \<and> chunk_data sample_ext (sample_region 0 [0, 0, 0, 13] 2) 1 0 = Inr None
   \<and> chunk_data sample_ext
        ((sample_region 0 [0, 0, 0, 13] 2)
           \<lparr>data := take 4096 (data (sample_region 0 [0, 0, 0, 13] 2))\<rparr>) 1 0 = Inr None"
proof -
  have loc: "chunk_location (sample_region 0 [0, 0, 0, 13] 2) 1 0 = Inr (0, 0)"
    by (rule sample_location_next)
  show ?thesis
    using loc absent_chunk [OF loc, of sample_ext] by simp
qed

theorem gzip_chunk_rejected_witness:
  "chunk_location (sample_region 0 [0, 0, 0, 13] 1) 0 0 = Inr (2, 1)
   \<and> getitem (data (sample_region 0 [0, 0, 0, 13] 1)) 8196 = Inr 1
   \<and> compressed_data (sample_region 0 [0, 0, 0, 13] 1) 0 0 = Inl GZipChunkData
   \<and> chunk_data sample_ext (sample_region 0 [0, 0, 0, 13] 1) 0 0 = Inl GZipChunkData"
proof -
  have loc: "chunk_location (sample_region 0 [0, 0, 0, 13] 1) 0 0 = Inr (2, 1)"
    by (rule sample_location_origin)
  have nz: "(2::int, 1::int) \<noteq> (0, 0)"
    by simp
  have tag: "getitem (data (sample_region 0 [0, 0, 0, 13] 1)) (fst (2::int, 1::int) * 4096 + 4) = Inr 1"
    by (simp add: sample_tag)
  show ?thesis
    using loc tag gzip_chunk_rejected [OF loc nz tag, of sample_ext] by simp
qed

theorem unknown_tag_counterexample:
  "chunk_location (sample_region 0 [0, 0, 0, 13] 99) 0 0 = Inr (2, 1)
   \<and> getitem (data (sample_region 0 [0, 0, 0, 13] 99)) 8196 = Inr 99
   \<and> compressed_data (sample_region 0 [0, 0, 0, 13] 99) 0 0 = Inr (Some zlib_sample)
   \<and> chunk_data sample_ext (sample_region 0 [0, 0, 0, 13] 99) 0 0 = Inr (Some nbt_sample)"
proof -
  have cd: "compressed_data (sample_region 0 [0, 0, 0, 13] 99) 0 0 = Inr (Some zlib_sample)"
    by (rule sample_compressed_data_origin) simp
  then have "chunk_data sample_ext (sample_region 0 [0, 0, 0, 13] 99) 0 0
      = inflate_parse sample_ext zlib_sample"
    by (rule chunk_data_of_compressed(1))
  then show ?thesis
    using cd by (simp add: sample_location_origin sample_tag sample_inflate)
qed

theorem other_tags_inflated_witness:
  "chunk_location (sample_region 0 [0, 0, 0, 13] 99) 0 0 = Inr (2, 1)
   \<and> getitem (data (sample_region 0 [0, 0, 0, 13] 99)) 8196 = Inr 99
   \<and> getslice (data (sample_region 0 [0, 0, 0, 13] 99)) 8197 8209 = zlib_sample
   \<and> inflate_parse sample_ext zlib_sample = Inr (Some nbt_sample)
   \<and> chunk_data sample_ext (sample_region 0 [0, 0, 0, 13] 99) 0 0 = Inr (Some nbt_sample)"
proof -
  let ?r = "sample_region 0 [0, 0, 0, 13] 99"
  have loc: "chunk_location ?r 0 0 = Inr (2, 1)"
    by (rule sample_location_origin)
  have nz: "(2::int, 1::int) \<noteq> (0, 0)"
    by simp
  have tag: "getitem (data ?r) (fst (2::int, 1::int) * 4096 + 4) = Inr 99"
    by (simp add: sample_tag)
  have ne: "(99::byte) \<noteq> 1"
    by simp
  have len: "from_bytes_big (getslice (data ?r) 8192 8196) = 13"
    by (simp add: data_sample_region sample_file_def getslice_def from_bytes_big_def)
  have pay: "getslice (data ?r) 8197 8209 = zlib_sample"
    by (simp add: data_sample_region sample_file_def getslice_def zlib_sample_def)
  show ?thesis
    using loc tag pay other_tags_inflated [OF loc nz tag ne, of sample_ext]
    by (simp add: len sample_inflate)
qed

lemma sample_file_origin:
  "sample_file 0 len4 tag =
     ([0, 0, 2, 1] @ replicate 4092 0 @ replicate 4096 0)
     @ len4 @ [tag] @ zlib_sample @ replicate 4079 0"
  by (simp add: sample_file_def)

theorem zlib_round_trip_witness:
  "chunk_location (sample_region 0 [0, 0, 0, 13] 2) 0 0 = Inr (2, 1)
   \<and> from_bytes_big [0, 0, 0, 13] = int (length zlib_sample) + 1
   \<and> zlib_decompress sample_ext zlib_sample = Some nbt_sample
   \<and> compressed_data (sample_region 0 [0, 0, 0, 13] 2) 0 0 = Inr (Some zlib_sample)
   \<and> chunk_data sample_ext (sample_region 0 [0, 0, 0, 13] 2) 0 0 = Inr (Some nbt_sample)"
proof -
  let ?r = "sample_region 0 [0, 0, 0, 13] 2"
  let ?pre = "[0, 0, 2, 1] @ replicate 4092 0 @ replicate 4096 (0::byte)"
  have loc: "chunk_location ?r 0 0 = Inr (2, 1)"
    by (rule sample_location_origin)
  have nz: "(2::int, 1::int) \<noteq> (0, 0)"
    by simp
  have d: "data ?r = ?pre @ [0, 0, 0, 13] @ [2] @ (\<lambda>_. zlib_sample) nbt_sample @ replicate 4079 0"
    unfolding data_sample_region by (rule sample_file_origin)
  have pre: "int (length ?pre) = fst (2::int, 1::int) * 4096"
    by simp
  have l4: "length [0, 0, 0, 13::byte] = 4"
    by simp
  have L: "from_bytes_big [0, 0, 0, 13] = int (length ((\<lambda>_. zlib_sample) nbt_sample)) + 1"
    by (simp add: from_bytes_big_13 zlib_sample_def)
  have z: "zlib_decompress sample_ext ((\<lambda>_. zlib_sample) nbt_sample) = Some nbt_sample"
    by (simp add: sample_decompress)
  show ?thesis
    using loc L z zlib_round_trip [OF loc nz d pre l4 L z]
    by (simp add: sample_parse)
qed

lemma inflate_parse_not_IndexError: "inflate_parse ext bs \<noteq> Inl IndexError"
  by (simp add: inflate_parse_def split: option.splits)

theorem overlong_record_counterexample:
  "chunk_location (sample_region 0 [0, 0, 0x20, 0] 2) 0 0 = Inr (2, 1)
   \<and> length (data (sample_region 0 [0, 0, 0x20, 0] 2)) = 12288
   \<and> from_bytes_big (getslice (data (sample_region 0 [0, 0, 0x20, 0] 2)) 8192 8196) = 8192
   \<and> getitem (data (sample_region 0 [0, 0, 0x20, 0] 2)) 8196 = Inr 2
   \<and> compressed_data (sample_region 0 [0, 0, 0x20, 0] 2) 0 0
        = Inr (Some (zlib_sample @ replicate 4079 0))
   \<and> chunk_data sample_ext (sample_region 0 [0, 0, 0x20, 0] 2) 0 0 = Inr (Some nbt_sample)"
proof -
  let ?r = "sample_region 0 [0, 0, 0x20, 0] 2"
  have loc: "chunk_location ?r 0 0 = Inr (2, 1)"
    by (rule sample_location_origin)
  have nz: "(2::int, 1::int) \<noteq> (0, 0)"
    by simp
  have tag: "getitem (data ?r) (fst (2::int, 1::int) * 4096 + 4) = Inr 2"
    by (simp add: sample_tag)
  have ne: "(2::byte) \<noteq> 1"
    by simp
  have len: "from_bytes_big (getslice (data ?r) 8192 8196) = 8192"
    by (simp add: data_sample_region sample_file_def getslice_def from_bytes_big_def)
  have pay: "getslice (data ?r) 8197 16388 = zlib_sample @ replicate 4079 0"
    by (simp add: data_sample_region sample_file_def getslice_def zlib_sample_def)
  have cd: "compressed_data ?r 0 0 = Inr (Some (zlib_sample @ replicate 4079 0))"
    using compressed_data_other_tag [OF loc nz tag ne] by (simp add: len pay)
  then have "chunk_data sample_ext ?r 0 0 = inflate_parse sample_ext (zlib_sample @ replicate 4079 0)"
    by (rule chunk_data_of_compressed(1))
  then show ?thesis
    using cd loc len tag
    by (simp add: data_sample_region sample_file_length sample_inflate)
qed

theorem no_bounds_check_witness:
  "chunk_location header_only_region 0 0 = Inr (2, 1)
   \<and> length (data header_only_region) = 8192
   \<and> compressed_data header_only_region 0 0 = Inl IndexError
   \<and> chunk_data sample_ext header_only_region 0 0 = Inl IndexError
   \<and> getitem (data (sample_region 0 [0, 0, 0x20, 0] 2)) 8196 = Inr 2
   \<and> drop 8197 (data (sample_region 0 [0, 0, 0x20, 0] 2)) = zlib_sample @ replicate 4079 0
   \<and> chunk_data sample_ext (sample_region 0 [0, 0, 0x20, 0] 2) 0 0
        = inflate_parse sample_ext (zlib_sample @ replicate 4079 0)"
proof -
  let ?h = "header_only_region"
  let ?r = "sample_region 0 [0, 0, 0x20, 0] 2"
  have nz: "(2::int, 1::int) \<noteq> (0, 0)"
    by simp
  have dh: "data ?h = [0, 0, 2, 1] @ replicate 8188 0"
    by (simp add: header_only_region_def data_Region)
  have hloc: "chunk_location ?h 0 0 = Inr (2, 1)"
    by (simp add: chunk_location_def dh header_offset_origin getitem_def getslice_def
        from_bytes_big_def)
  have hlen: "length (data ?h) = 8192"
    by (simp add: dh)
  have loc: "chunk_location ?r 0 0 = Inr (2, 1)"
    by (rule sample_location_origin)
  have tag: "getitem (data ?r) 8196 = Inr 2"
    by (simp add: sample_tag)
  have len: "from_bytes_big (getslice (data ?r) 8192 8196) = 8192"
    by (simp add: data_sample_region sample_file_def getslice_def from_bytes_big_def)
  have rlen: "length (data ?r) = 12288"
    by (simp add: data_sample_region sample_file_length)
  have dr: "drop 8197 (data ?r) = zlib_sample @ replicate 4079 0"
    by (simp add: data_sample_region sample_file_def zlib_sample_def)
  show ?thesis
    using hloc hlen tag dr
      no_bounds_check [OF hloc nz, where ext = sample_ext]
      no_bounds_check [OF loc nz, where ext = sample_ext and tag = 2]
    by (simp add: len rlen)
qed

lemma load_times_ok:
  assumes "snd (load ext self) = None"
  shows "snd (load_times ext n self) = None"
  using assms
proof (induction n arbitrary: self)
  case 0
  then show ?case by simp
next
  case (Suc n)
  obtain s1 where s1: "load ext self = (s1, None)"
    using Suc.prems by (cases "load ext self") simp
  have d: "data s1 = data self"
    using load_frame [of ext self] s1 by simp
  have "\<forall>x\<in>{0..31}. \<forall>z\<in>{0..31}. \<exists>c. get_chunk ext self x z = Inr c"
    using Suc.prems by (simp only: load_None_iff)
  then have "\<forall>x\<in>{0..31}. \<forall>z\<in>{0..31}. \<exists>c. get_chunk ext s1 x z = Inr c"
    by (simp only: get_chunk_data_cong [OF d])
  then have "snd (load ext s1) = None"
    by (simp only: load_None_iff)
  then have "snd (load_times ext n s1) = None"
    by (rule Suc.IH)
  then show ?case
    by (simp add: s1)
qed

lemma one_chunk_get_chunk:
  "get_chunk sample_ext (sample_region 1172 [0, 0, 0, 13] 2) x z =
     Inr (if header_offset x z = 1172 then Some nbt_sample else None)"
  using sample_get_chunk [of 293 x z] by simp

lemma one_chunk_load: "snd (load sample_ext (sample_region 1172 [0, 0, 0, 13] 2)) = None"
proof -
  have "\<exists>c. get_chunk sample_ext (sample_region 1172 [0, 0, 0, 13] 2) x z = Inr c" for x z
    unfolding one_chunk_get_chunk by blast
  then have "\<forall>x\<in>{0..31}. \<forall>z\<in>{0..31}.
      \<exists>c. get_chunk sample_ext (sample_region 1172 [0, 0, 0, 13] 2) x z = Inr c"
    by blast
  then show ?thesis
    by (simp only: load_None_iff)
qed

lemma cell_293:
  fixes a b :: nat
  assumes "a < 32" and "b < 32" and "a + b * 32 = 293"
  shows "a = 5 \<and> b = 9"
  using assms by arith

lemma index_169:
  fixes i :: nat
  assumes "i < 1024"
  shows "(i div 32 + i mod 32 * 32 = 293) = (i = 169)"
proof
  assume e: "i div 32 + i mod 32 * 32 = 293"
  have m: "i mod 32 < 32" by simp
  have d: "i div 32 < 32" using assms by simp
  have dm: "i div 32 = 5 \<and> i mod 32 = 9"
    using d m e by (rule cell_293)
  have "i div 32 * 32 + i mod 32 = i"
    by (rule div_mult_mod_eq)
  then have "5 * 32 + 9 = i"
    by (simp only: dm)
  then show "i = 169" by simp
next
  assume "i = 169"
  then show "i div 32 + i mod 32 * 32 = 293" by simp
qed

lemma offset_1172_iff: "(4 * int n = 1172) = (n = 293)"
  by arith

lemma header_offset_cell:
  assumes "a < 32" and "b < 32"
  shows "header_offset (int a) (int b) = 4 * int (a + b * 32)"
proof -
  have "int a mod 32 = int a" "int b mod 32 = int b"
    using assms by simp_all
  then show ?thesis
    unfolding header_offset_def by simp
qed

lemma sweep_index:
  assumes "i < 1024"
  shows "int (i div 32) \<in> {0..31}" and "int (i mod 32) \<in> {0..31}"
    and "nat (32 * int (i div 32) + int (i mod 32)) = i"
    and "header_offset (int (i div 32)) (int (i mod 32)) = 1172 \<longleftrightarrow> i = 169"
proof -
  have d: "i div 32 < 32" using assms by simp
  have m: "i mod 32 < 32" by simp
  show "int (i div 32) \<in> {0..31}"
    using d by simp
  show "int (i mod 32) \<in> {0..31}"
    using m by simp
  have "i div 32 * 32 + i mod 32 = i"
    by (rule div_mult_mod_eq)
  then have "int (i div 32) * 32 + int (i mod 32) = int i"
    by (metis of_nat_add of_nat_mult of_nat_numeral)
  then have "32 * int (i div 32) + int (i mod 32) = int i"
    by (simp only: mult.commute)
  then show "nat (32 * int (i div 32) + int (i mod 32)) = i"
    by (simp only: nat_int)
  show "header_offset (int (i div 32)) (int (i mod 32)) = 1172 \<longleftrightarrow> i = 169"
    unfolding header_offset_cell [OF d m] offset_1172_iff by (rule index_169 [OF assms])
qed

lemma one_chunk_list_nth:
  assumes "i < 1024"
  shows "(replicate 169 None @ [Some nbt_sample] @ replicate 854 None) ! i
     = (if i = 169 then Some nbt_sample else None)"
proof -
  consider "i < 169" | "i = 169" | "169 < i"
    by linarith
  then show ?thesis
  proof cases
    case 1
    then show ?thesis by (simp add: nth_append)
  next
    case 2
    then show ?thesis by (simp add: nth_append)
  next
    case 3
    then have "i - 169 = Suc (i - 170)" by simp
    with 3 assms show ?thesis by (simp add: nth_append)
  qed
qed

theorem load_sweep_witness:
  "chunks (sample_region 1172 [0, 0, 0, 13] 2) = []
   \<and> chunk_location (sample_region 1172 [0, 0, 0, 13] 2) 5 9 = Inr (2, 1)
   \<and> snd (load sample_ext (sample_region 1172 [0, 0, 0, 13] 2)) = None
   \<and> length (chunks (fst (load sample_ext (sample_region 1172 [0, 0, 0, 13] 2)))) = 1024
   \<and> chunks (fst (load sample_ext (sample_region 1172 [0, 0, 0, 13] 2)))
        = replicate 169 None @ [Some nbt_sample] @ replicate 854 None"
proof -
  let ?r = "sample_region 1172 [0, 0, 0, 13] 2"
  let ?cs = "chunks (fst (load sample_ext ?r))"
  have e: "chunks ?r = []"
    by (rule chunks_sample_region)
  have h: "header_offset 5 9 = 1172"
    by (simp add: header_offset_def)
  have loc: "chunk_location ?r 5 9 = Inr (2, 1)"
    using sample_location [of 293 "[0, 0, 0, 13]" 2 5 9] by (simp add: h)
  have ok: "snd (load sample_ext ?r) = None"
    by (rule one_chunk_load)
  note sweep = load_sweep [OF e, of sample_ext, THEN conjunct2, THEN mp, OF ok]
  have len: "length ?cs = 1024"
    using sweep by (rule conjunct1)
  have ent: "\<forall>x\<in>{0..31}. \<forall>z\<in>{0..31}.
      get_chunk sample_ext ?r x z = Inr (?cs ! nat (32 * x + z))"
    using sweep [THEN conjunct2] by (rule conjunct1)
  have nth: "?cs ! i = (if i = 169 then Some nbt_sample else None)" if "i < 1024" for i
  proof -
    have "get_chunk sample_ext ?r (int (i div 32)) (int (i mod 32))
        = Inr (?cs ! nat (32 * int (i div 32) + int (i mod 32)))"
      using ent sweep_index(1) [OF that] sweep_index(2) [OF that] by blast
    then have "Inr (if i = 169 then Some nbt_sample else None)
        = (Inr (?cs ! i) :: error + byte list option)"
      by (simp only: sweep_index(3) [OF that] one_chunk_get_chunk sweep_index(4) [OF that])
    then show ?thesis
      by (simp only: sum.inject)
  qed
  have "?cs = replicate 169 None @ [Some nbt_sample] @ replicate 854 None"
  proof (rule nth_equalityI)
    show "length ?cs = length (replicate 169 None @ [Some nbt_sample] @ replicate 854 None)"
      by (simp add: len)
    fix i
    assume "i < length ?cs"
    then have i: "i < 1024"
      by (simp only: len)
    show "?cs ! i = (replicate 169 None @ [Some nbt_sample] @ replicate 854 None) ! i"
      by (simp only: nth [OF i] one_chunk_list_nth [OF i])
  qed
  with e loc ok len show ?thesis
    by (intro conjI)
qed

theorem load_appends_witness:
  "snd (load sample_ext (sample_region 1172 [0, 0, 0, 13] 2)) = None
   \<and> length (chunks (fst (load sample_ext (sample_region 1172 [0, 0, 0, 13] 2)))) = 1024
   \<and> snd (load_times sample_ext 2 (sample_region 1172 [0, 0, 0, 13] 2)) = None
   \<and> length (chunks (fst (load_times sample_ext 2 (sample_region 1172 [0, 0, 0, 13] 2)))) = 2048
   \<and> data (fst (load_times sample_ext 2 (sample_region 1172 [0, 0, 0, 13] 2)))
        = data (sample_region 1172 [0, 0, 0, 13] 2)"
proof -
  let ?r = "sample_region 1172 [0, 0, 0, 13] 2"
  have e: "chunks ?r = []"
    by (rule chunks_sample_region)
  have ok: "snd (load sample_ext ?r) = None"
    by (rule one_chunk_load)
  have ok2: "snd (load_times sample_ext 2 ?r) = None"
    using ok by (rule load_times_ok)
  obtain r2 where twice: "load_times sample_ext 2 ?r = (r2, None)"
    using ok2 by (cases "load_times sample_ext 2 ?r") simp
  note T = load_appends [of sample_ext ?r 2 r2]
  have once: "\<exists>new. chunks (fst (load sample_ext ?r)) = chunks ?r @ new
         \<and> (snd (load sample_ext ?r) = None \<longrightarrow> length new = 1024)"
    using T by blast
  have len1: "length (chunks (fst (load sample_ext ?r))) = 1024"
    using once ok e by auto
  have two: "length (chunks r2) = length (chunks ?r) + 1024 * 2 \<and> name r2 = name ?r
      \<and> data r2 = data ?r"
    using T twice by blast
  have len2: "length (chunks (fst (load_times sample_ext 2 ?r))) = 2048"
    using two e by (simp add: twice)
  have d2: "data (fst (load_times sample_ext 2 ?r)) = data ?r"
    using two by (simp add: twice)
  from ok len1 ok2 len2 d2 show ?thesis
    by (intro conjI)
qed

end
